theory Spec2Isabelle
  imports Main "HOL-Library.Sublist"
begin

section \<open>JavaScript strings and the library calls the parser uses\<close>

text \<open>
  A JavaScript string is a sequence of UTF-16 code units; a code unit is modelled as a
  natural number. The parser tests for the bullet glyph U+2022, the dashes U+2013 and
  U+2014 and the Unicode white space of \<^verbatim>\<open>\s\<close>, none of which is an 8-bit character,
  so \<^typ>\<open>string\<close> is used for literals only and converted by \<open>js\<close>.
\<close>

type_synonym jsstring = "nat list"

definition js :: "string \<Rightarrow> jsstring" where
  "js s = map of_char s"

text \<open>
  \<^verbatim>\<open>\s\<close> in a regular expression and the characters removed by \<^verbatim>\<open>String.prototype.trim\<close>
  are the same set: WhiteSpace and LineTerminator of ECMAScript.
\<close>

definition isSpace :: "nat \<Rightarrow> bool" where
  "isSpace c = (c = 9 \<or> c = 10 \<or> c = 11 \<or> c = 12 \<or> c = 13 \<or> c = 32 \<or> c = 160
     \<or> c = 5760 \<or> (8192 \<le> c \<and> c \<le> 8202) \<or> c = 8232 \<or> c = 8233 \<or> c = 8239
     \<or> c = 8287 \<or> c = 12288 \<or> c = 65279)"

definition isLineTerminator :: "nat \<Rightarrow> bool" where
  "isLineTerminator c = (c = 10 \<or> c = 13 \<or> c = 8232 \<or> c = 8233)"

text \<open>\<^verbatim>\<open>\d\<close> is the ASCII digits.\<close>

definition isDigit :: "nat \<Rightarrow> bool" where
  "isDigit c = (48 \<le> c \<and> c \<le> 57)"

definition trim_js :: "jsstring \<Rightarrow> jsstring" where
  "trim_js s = rev (dropWhile isSpace (rev (dropWhile isSpace s)))"

text \<open>\<^verbatim>\<open>s.replace(/\s+/g, " ")\<close>: every maximal run of white space becomes one space.\<close>

function collapseSpaces :: "jsstring \<Rightarrow> jsstring" where
  "collapseSpaces [] = []"
| "collapseSpaces (c # cs) =
     (if isSpace c then 32 # collapseSpaces (dropWhile isSpace cs)
      else c # collapseSpaces cs)"
  by pat_completeness auto
termination
  by (relation "measure length") (auto simp: length_dropWhile_le less_Suc_eq_le)

text \<open>
  \<^verbatim>\<open>s.split(/\r?\n/)\<close>: the separators are LF and CR LF; a CR that no LF follows stays
  in its line. The result is never the empty list.
\<close>

fun splitLines :: "jsstring \<Rightarrow> jsstring list" where
  "splitLines [] = [[]]"
| "splitLines (c # cs) =
     (if c = 10 then [] # splitLines cs
      else if c = 13 \<and> cs \<noteq> [] \<and> hd cs = 10 then [] # splitLines (tl cs)
      else (case splitLines cs of
              [] \<Rightarrow> [[c]]
            | l # ls \<Rightarrow> (c # l) # ls))"

text \<open>\<^verbatim>\<open>parts.join(sep)\<close>.\<close>

fun join_js :: "jsstring \<Rightarrow> jsstring list \<Rightarrow> jsstring" where
  "join_js sep [] = []"
| "join_js sep [x] = x"
| "join_js sep (x # y # ys) = x @ sep @ join_js sep (y # ys)"

text \<open>
  Matching under the \<^verbatim>\<open>i\<close> flag compares canonicalized code units. Every pattern
  character of this program is ASCII, and ECMAScript's Canonicalize never maps a code
  unit from 128 on to one below 128, so only the ASCII letters need folding: on the
  other code units the identity decides the same comparisons.
\<close>

definition canonicalize :: "nat \<Rightarrow> nat" where
  "canonicalize c = (if 97 \<le> c \<and> c \<le> 122 then c - 32 else c)"

text \<open>A literal of a case-insensitive pattern, matched at the start of the text: the rest
  of the text after the match, or \<open>None\<close>.\<close>

fun matchLit :: "jsstring \<Rightarrow> jsstring \<Rightarrow> jsstring option" where
  "matchLit [] s = Some s"
| "matchLit (p # ps) [] = None"
| "matchLit (p # ps) (c # cs) =
     (if canonicalize p = canonicalize c then matchLit ps cs else None)"

text \<open>\<^verbatim>\<open>regex.test(s)\<close> for a pattern without anchor: the pattern is tried at every
  position, the end of the text included.\<close>

fun searchRe :: "(jsstring \<Rightarrow> bool) \<Rightarrow> jsstring \<Rightarrow> bool" where
  "searchRe m [] = m []"
| "searchRe m (c # cs) = (m (c # cs) \<or> searchRe m cs)"

definition testLit :: "string \<Rightarrow> jsstring \<Rightarrow> bool" where
  "testLit pat s = searchRe (\<lambda>t. matchLit (js pat) t \<noteq> None) s"

text \<open>\<^verbatim>\<open>self[-\s]?word\<close> at the start of the text.\<close>

definition matchSelf :: "string \<Rightarrow> jsstring \<Rightarrow> bool" where
  "matchSelf word t =
     (case matchLit (js ''self'') t of
        None \<Rightarrow> False
      | Some r \<Rightarrow>
          (case r of
             [] \<Rightarrow> False
           | c # cs \<Rightarrow> (c = 45 \<or> isSpace c) \<and> matchLit (js word) cs \<noteq> None)
          \<or> matchLit (js word) r \<noteq> None)"

text \<open>\<^verbatim>\<open>s.includes(pat)\<close> and \<^verbatim>\<open>s.replace(pat, "")\<close> with a string pattern (the first
  occurrence is removed).\<close>

definition includes_js :: "jsstring \<Rightarrow> jsstring \<Rightarrow> bool" where
  "includes_js pat s = searchRe (prefix pat) s"

fun replaceFirst :: "jsstring \<Rightarrow> jsstring \<Rightarrow> jsstring" where
  "replaceFirst pat [] = []"
| "replaceFirst pat (c # cs) =
     (if prefix pat (c # cs) then drop (length pat) (c # cs)
      else c # replaceFirst pat cs)"

text \<open>
  \<^verbatim>\<open>s.toLowerCase()\<close>. The ASCII capitals are lowered; U+0130 becomes \<^verbatim>\<open>i\<close> followed by
  U+0307 and the Kelvin sign U+212A becomes \<^verbatim>\<open>k\<close>: these are the only other code units
  whose lower case contains an ASCII code unit. Every remaining code unit is kept: its
  lower case in Unicode is not ASCII either, and the program only looks for ASCII words
  in the result.
\<close>

definition lowerUnit :: "nat \<Rightarrow> jsstring" where
  "lowerUnit c =
     (if 65 \<le> c \<and> c \<le> 90 then [c + 32]
      else if c = 304 then [105, 775]
      else if c = 8490 then [107]
      else [c])"

definition toLowerCase :: "jsstring \<Rightarrow> jsstring" where
  "toLowerCase s = concat (map lowerUnit s)"

section \<open>Prediction mode: PromptPage.jsx\<close>

subsection \<open>cleanBullet and mapConfidence\<close>

text \<open>\<^verbatim>\<open>text.replace(/^[-*B\d\.\)\s]+/, "").replace(/\s+/g, " ").trim()\<close>, where
  \<^verbatim>\<open>B\<close> stands for the bullet glyph U+2022.\<close>

definition isBulletChar :: "nat \<Rightarrow> bool" where
  "isBulletChar c =
     (c = 45 \<or> c = 42 \<or> c = 8226 \<or> isDigit c \<or> c = 46 \<or> c = 41 \<or> isSpace c)"

definition cleanBullet :: "jsstring \<Rightarrow> jsstring" where
  "cleanBullet text = trim_js (collapseSpaces (dropWhile isBulletChar text))"

definition mapConfidence :: "jsstring \<Rightarrow> nat" where
  "mapConfidence label =
     (let normalized = toLowerCase label in
      if includes_js (js ''high'') normalized then 75
      else if includes_js (js ''medium'') normalized \<or> includes_js (js ''med'') normalized
        then 55
      else if includes_js (js ''low'') normalized then 35
      else 60)"

subsection \<open>parseCondition\<close>

record condition =
  title :: jsstring
  summary :: jsstring
  confidenceLabel :: jsstring
  confidencePercent :: nat

text \<open>
  \<^verbatim>\<open>body.match(/\*\*(.*?)\*\*/)\<close>. After an opening \<^verbatim>\<open>**\<close>, the lazy group stops at
  the first closing \<^verbatim>\<open>**\<close>; the dot does not match a line terminator, so the attempt
  fails there and the search goes on from the next start position. \<open>lazySpan\<close> returns
  the group; \<open>matchSpan\<close> returns the whole match and the group of the leftmost match.
\<close>

fun lazySpan :: "jsstring \<Rightarrow> jsstring option" where
  "lazySpan [] = None"
| "lazySpan (c # cs) =
     (if prefix [42, 42] (c # cs) then Some []
      else if isLineTerminator c then None
      else map_option ((#) c) (lazySpan cs))"

fun matchSpan :: "jsstring \<Rightarrow> (jsstring \<times> jsstring) option" where
  "matchSpan [] = None"
| "matchSpan (c # cs) =
     (if prefix [42, 42] (c # cs) then
        (case lazySpan (tl cs) of
           Some g \<Rightarrow> Some ([42, 42] @ g @ [42, 42], g)
         | None \<Rightarrow> matchSpan cs)
      else matchSpan cs)"

text \<open>\<^verbatim>\<open>body.replace(/^[:\-ND]\s*/, "")\<close>, where \<^verbatim>\<open>N\<close> and \<^verbatim>\<open>D\<close> stand for
  the dashes U+2013 and U+2014.\<close>

definition stripSeparator :: "jsstring \<Rightarrow> jsstring" where
  "stripSeparator body =
     (case body of
        [] \<Rightarrow> []
      | c # cs \<Rightarrow>
          if c = 58 \<or> c = 45 \<or> c = 8211 \<or> c = 8212 then dropWhile isSpace cs else body)"

text \<open>\<^verbatim>\<open>body.split(/\s-\s/)\<close>: the matches are taken from left to right and do not
  overlap. The result is never the empty list.\<close>

fun splitDash :: "jsstring \<Rightarrow> jsstring list" where
  "splitDash (a # b # c # cs) =
     (if isSpace a \<and> b = 45 \<and> isSpace c then [] # splitDash cs
      else (case splitDash (b # c # cs) of
              [] \<Rightarrow> [[a]]
            | p # ps \<Rightarrow> (a # p) # ps))"
| "splitDash s = [s]"

definition parseCondition :: "jsstring \<Rightarrow> condition option" where
  "parseCondition line =
     (let body = cleanBullet line in
      if body = [] then None
      else
        let (confidenceLabel, body1) =
              (case matchSpan body of
                 None \<Rightarrow> ([], body)
               | Some (whole, grp) \<Rightarrow>
                   (trim_js (filter (\<lambda>c. c \<noteq> 58) grp), trim_js (replaceFirst whole body)));
            body2 = stripSeparator body1;
            parts = splitDash body2;
            titlePart = (case parts of [] \<Rightarrow> None | p # _ \<Rightarrow> Some p);
            rest = (case parts of [] \<Rightarrow> [] | _ # ps \<Rightarrow> ps);
            title = (case titlePart of
                       None \<Rightarrow> body2
                     | Some p \<Rightarrow> if trim_js p \<noteq> [] then trim_js p else body2);
            summary = trim_js (join_js (js '' - '') rest)
        in Some \<lparr>title = title, summary = summary, confidenceLabel = confidenceLabel,
                  confidencePercent = mapConfidence confidenceLabel\<rparr>)"

subsection \<open>resolveSection and buildStructuredResult\<close>

datatype predSection = Intro | Conditions | RedFlags | SelfCare | Specialist | Disclaimer

definition checks :: "(predSection \<times> (jsstring \<Rightarrow> bool)) list" where
  "checks =
     [(Conditions, testLit ''likely conditions''),
      (RedFlags, testLit ''red flags''),
      (SelfCare, \<lambda>s. searchRe (matchSelf ''care'') s \<or> searchRe (matchSelf ''monitor'') s),
      (Specialist, \<lambda>s. testLit ''specialist'' s \<or> testLit ''doctor'' s \<or> testLit ''clinician'' s),
      (Disclaimer, testLit ''disclaimer'')]"

definition resolveSection :: "jsstring \<Rightarrow> predSection option" where
  "resolveSection line = map_option fst (find (\<lambda>(key, regex). regex line) checks)"

record prediction =
  introParagraphs :: "jsstring list"
  conditions :: "condition list"
  redFlags :: "jsstring list"
  selfCare :: "jsstring list"
  specialist :: "jsstring list"
  disclaimer :: jsstring

definition base :: prediction where
  "base = \<lparr>introParagraphs = [], conditions = [], redFlags = [], selfCare = [],
           specialist = [], disclaimer = []\<rparr>"

text \<open>\<^verbatim>\<open>/^[-*B\d]/.test(trimmed)\<close>, with \<^verbatim>\<open>B\<close> the bullet glyph U+2022.\<close>

definition startsWithBullet :: "jsstring \<Rightarrow> bool" where
  "startsWithBullet t =
     (case t of [] \<Rightarrow> False | c # _ \<Rightarrow> c = 45 \<or> c = 42 \<or> c = 8226 \<or> isDigit c)"

text \<open>The \<^verbatim>\<open>switch\<close> of the loop body: a content line is routed by the active section.\<close>

fun routeLine :: "predSection \<Rightarrow> jsstring \<Rightarrow> prediction \<Rightarrow> prediction" where
  "routeLine Conditions trimmed b =
     (if startsWithBullet trimmed then
        (case parseCondition trimmed of
           Some parsed \<Rightarrow> b\<lparr>conditions := conditions b @ [parsed]\<rparr>
         | None \<Rightarrow> b)
      else b)"
| "routeLine RedFlags trimmed b = b\<lparr>redFlags := redFlags b @ [cleanBullet trimmed]\<rparr>"
| "routeLine SelfCare trimmed b = b\<lparr>selfCare := selfCare b @ [cleanBullet trimmed]\<rparr>"
| "routeLine Specialist trimmed b = b\<lparr>specialist := specialist b @ [cleanBullet trimmed]\<rparr>"
| "routeLine Disclaimer trimmed b =
     b\<lparr>disclaimer := disclaimer b @ cleanBullet trimmed @ [32]\<rparr>"
| "routeLine Intro trimmed b =
     b\<lparr>introParagraphs := introParagraphs b @ [cleanBullet trimmed]\<rparr>"

text \<open>One iteration of the loop over the lines, on the pair of the active section and
  the result under construction.\<close>

definition predictStep :: "predSection \<times> prediction \<Rightarrow> jsstring \<Rightarrow> predSection \<times> prediction" where
  "predictStep st line =
     (let trimmed = trim_js line in
      if trimmed = [] then st
      else (case resolveSection trimmed of
              Some newSection \<Rightarrow> (newSection, snd st)
            | None \<Rightarrow> (fst st, routeLine (fst st) trimmed (snd st))))"

text \<open>The argument is \<open>None\<close> for \<^verbatim>\<open>null\<close> or \<^verbatim>\<open>undefined\<close>; \<^verbatim>\<open>!rawText\<close> holds for these
  and for the empty string.\<close>

definition buildStructuredResult :: "jsstring option \<Rightarrow> prediction" where
  "buildStructuredResult rawText =
     (case rawText of
        None \<Rightarrow> base
      | Some text \<Rightarrow>
          if text = [] then base
          else
            let b = snd (foldl predictStep (Intro, base) (splitLines text))
            in b\<lparr>disclaimer := trim_js (disclaimer b)\<rparr>)"

section \<open>Report mode: the report page\<close>

text \<open>The source file of the report page is \<^verbatim>\<open>src/unnamed/part_001\<close>.\<close>

subsection \<open>stripMarkers\<close>

text \<open>\<^verbatim>\<open>.replace(/^\*\*|\*\*$/g, "")\<close>: a leading \<^verbatim>\<open>**\<close> is removed, and a trailing \<^verbatim>\<open>**\<close> that
  does not overlap it.\<close>

definition stripBoldEnds :: "jsstring \<Rightarrow> jsstring" where
  "stripBoldEnds s =
     (let s1 = (if prefix [42, 42] s then drop 2 s else s)
      in if suffix [42, 42] s1 then take (length s1 - 2) s1 else s1)"

text \<open>\<^verbatim>\<open>.replace(/^\*\s*/, "")\<close>\<close>

definition stripLeadingStar :: "jsstring \<Rightarrow> jsstring" where
  "stripLeadingStar s =
     (case s of [] \<Rightarrow> [] | c # cs \<Rightarrow> if c = 42 then dropWhile isSpace cs else s)"

text \<open>\<^verbatim>\<open>.replace(/^[\-\d\.\)]\s*/, "")\<close>: one marker character, then white space.\<close>

definition stripLeadingMarker :: "jsstring \<Rightarrow> jsstring" where
  "stripLeadingMarker s =
     (case s of
        [] \<Rightarrow> []
      | c # cs \<Rightarrow>
          if c = 45 \<or> isDigit c \<or> c = 46 \<or> c = 41 then dropWhile isSpace cs else s)"

definition stripMarkers :: "jsstring \<Rightarrow> jsstring" where
  "stripMarkers text =
     trim_js (collapseSpaces (stripLeadingMarker (stripLeadingStar (stripBoldEnds text))))"

subsection \<open>resolveReportSection and buildReportStructure\<close>

datatype reportSection =
  SummaryTitle | ReportIntro | Findings | Diagnoses | Medications | Followups
  | ReportDisclaimer

definition resolveReportSection :: "jsstring \<Rightarrow> reportSection option" where
  "resolveReportSection line =
     (if matchLit (js ''**Summary'') line \<noteq> None then Some SummaryTitle
      else if testLit ''key findings'' line \<or> testLit ''impressions'' line then Some Findings
      else if testLit ''diagnoses'' line \<or> testLit ''differential'' line then Some Diagnoses
      else if testLit ''medications'' line \<or> testLit ''labs'' line then Some Medications
      else if testLit ''follow-up'' line \<or> testLit ''follow up'' line then Some Followups
      else if testLit ''disclaimer'' line then Some ReportDisclaimer
      else None)"

record report =
  summaryTitle :: jsstring
  intro :: "jsstring list"
  findings :: "jsstring list"
  diagnoses :: "jsstring list"
  medications :: "jsstring list"
  followups :: "jsstring list"
  reportDisclaimer :: jsstring

definition reportBase :: report where
  "reportBase = \<lparr>summaryTitle = [], intro = [], findings = [], diagnoses = [],
                 medications = [], followups = [], reportDisclaimer = []\<rparr>"

fun routeContent :: "reportSection \<Rightarrow> jsstring \<Rightarrow> report \<Rightarrow> report" where
  "routeContent Findings content b = b\<lparr>findings := findings b @ [content]\<rparr>"
| "routeContent Diagnoses content b = b\<lparr>diagnoses := diagnoses b @ [content]\<rparr>"
| "routeContent Medications content b = b\<lparr>medications := medications b @ [content]\<rparr>"
| "routeContent Followups content b = b\<lparr>followups := followups b @ [content]\<rparr>"
| "routeContent ReportDisclaimer content b =
     b\<lparr>reportDisclaimer := reportDisclaimer b @ content @ [32]\<rparr>"
| "routeContent _ content b = b\<lparr>intro := intro b @ [content]\<rparr>"

text \<open>One iteration of the loop; the lines were trimmed before the loop.\<close>

definition reportStep :: "reportSection \<times> report \<Rightarrow> jsstring \<Rightarrow> reportSection \<times> report" where
  "reportStep st line =
     (if line = [] then st
      else (case resolveReportSection line of
              Some newSection \<Rightarrow>
                if newSection = SummaryTitle
                then (ReportIntro, (snd st)\<lparr>summaryTitle := stripMarkers line\<rparr>)
                else (newSection, snd st)
            | None \<Rightarrow>
                (let content = stripMarkers line in
                 if content = [] then st
                 else (fst st, routeContent (fst st) content (snd st)))))"

definition buildReportStructure :: "jsstring option \<Rightarrow> report" where
  "buildReportStructure rawText =
     (case rawText of
        None \<Rightarrow> reportBase
      | Some text \<Rightarrow>
          if text = [] then reportBase
          else
            let lines = map trim_js (splitLines text);
                b = snd (foldl reportStep (ReportIntro, reportBase) lines)
            in b\<lparr>reportDisclaimer := trim_js (reportDisclaimer b)\<rparr>)"

section \<open>Notions of the specification\<close>

text \<open>
  The content lines of section \<open>k\<close>: the lines, trimmed, that are neither blank nor
  headers and are met while \<open>k\<close> is the active section; \<open>cur\<close> is the section active at
  the start.
\<close>

fun contentLines :: "predSection \<Rightarrow> predSection \<Rightarrow> jsstring list \<Rightarrow> jsstring list" where
  "contentLines k cur [] = []"
| "contentLines k cur (line # rest) =
     (if trim_js line = [] then contentLines k cur rest
      else (case resolveSection (trim_js line) of
              Some new \<Rightarrow> contentLines k new rest
            | None \<Rightarrow> (if cur = k then [trim_js line] else []) @ contentLines k cur rest))"

text \<open>The same for report mode, over the lines as the loop sees them (already trimmed);
  a summary title line leaves the intro section active.\<close>

fun reportContentLines ::
  "reportSection \<Rightarrow> reportSection \<Rightarrow> jsstring list \<Rightarrow> jsstring list" where
  "reportContentLines k cur [] = []"
| "reportContentLines k cur (line # rest) =
     (if line = [] then reportContentLines k cur rest
      else (case resolveReportSection line of
              Some new \<Rightarrow>
                reportContentLines k (if new = SummaryTitle then ReportIntro else new) rest
            | None \<Rightarrow> (if cur = k then [line] else []) @ reportContentLines k cur rest))"

text \<open>The header rule of a section, read from the table of \<open>resolveSection\<close>; the intro
  section has none.\<close>

definition headerRule :: "predSection \<Rightarrow> jsstring \<Rightarrow> bool" where
  "headerRule k line = (case map_of checks k of None \<Rightarrow> False | Some regex \<Rightarrow> regex line)"

text \<open>The body of a condition line after normalization, removal of the confidence span
  and stripping of a leading separator.\<close>

definition bodyAfterSteps :: "jsstring \<Rightarrow> jsstring" where
  "bodyAfterSteps line =
     stripSeparator
       (case matchSpan (cleanBullet line) of
          None \<Rightarrow> cleanBullet line
        | Some (whole, grp) \<Rightarrow> trim_js (replaceFirst whole (cleanBullet line)))"

text \<open>A label contains a word case-insensitively when one of its substrings is the word
  up to the case of the ASCII letters.\<close>

definition asciiLower :: "nat \<Rightarrow> nat" where
  "asciiLower c = (if 65 \<le> c \<and> c \<le> 90 then c + 32 else c)"

definition containsCI :: "string \<Rightarrow> jsstring \<Rightarrow> bool" where
  "containsCI word label = (\<exists>t. sublist t label \<and> map asciiLower t = js word)"

subsection \<open>Auxiliary predicates of the proofs\<close>

text \<open>A word of ASCII lower-case letters without \<^verbatim>\<open>k\<close> that does not end in \<^verbatim>\<open>i\<close>: the
  words \<open>mapConfidence\<close> looks for are of this kind.\<close>

definition plainWord :: "jsstring \<Rightarrow> bool" where
  "plainWord w = ((\<forall>a\<in>set w. 97 \<le> a \<and> a \<le> 122 \<and> a \<noteq> 107) \<and> (w \<noteq> [] \<longrightarrow> last w \<noteq> 105))"


section \<open>Evaluation on concrete inputs\<close>

lemmas parser_defs =
  js_def isSpace_def isDigit_def isLineTerminator_def trim_js_def canonicalize_def
  testLit_def matchSelf_def includes_js_def lowerUnit_def toLowerCase_def isBulletChar_def
  cleanBullet_def mapConfidence_def stripSeparator_def parseCondition_def checks_def
  resolveSection_def base_def startsWithBullet_def predictStep_def
  buildStructuredResult_def stripBoldEnds_def stripLeadingStar_def stripLeadingMarker_def
  stripMarkers_def resolveReportSection_def reportBase_def reportStep_def
  buildReportStructure_def bodyAfterSteps_def headerRule_def suffix_to_prefix Let_def

section \<open>Scenario A\<close>

text \<open>
  Claim C1. For the input of scenario A, the specification expects the conditions
  Flu (summary "fever and cough", label High, 75) and Cold (empty summary, label Low, 35).
  \<open>cleanBullet\<close> removes the opening \<^verbatim>\<open>**\<close> of the label together with the bullet, so
  \<open>parseCondition\<close> finds no span delimited by two \<^verbatim>\<open>**\<close>: the label stays empty, the
  percentage is the default 60 and the rest of the label remains in the title.
\<close>

theorem scenarioA_conditions:
  "conditions (buildStructuredResult (Some (js ''Likely Conditions:'' @ [10]
      @ js ''- **High**: Flu - fever and cough'' @ [10] @ js ''- **Low**: Cold'')))
   = [\<lparr>title = js ''High**: Flu'', summary = js ''fever and cough'',
         confidenceLabel = [], confidencePercent = 60\<rparr>,
      \<lparr>title = js ''Low**: Cold'', summary = [],
         confidenceLabel = [], confidencePercent = 60\<rparr>]"
  by (simp add: parser_defs)

section \<open>Facts about the string operations\<close>

lemma splitLines_not_Nil: "splitLines s \<noteq> []"
  by (induction s) (auto split: list.splits)

lemma splitLines_chars: "l \<in> set (splitLines s) \<Longrightarrow> set l \<subseteq> set s"
proof (induction s arbitrary: l rule: splitLines.induct)
  case 1
  then show ?case by simp
next
  case (2 c cs)
  show ?case
  proof (cases "c = 10")
    case True
    then have "l = [] \<or> l \<in> set (splitLines cs)" using "2.prems" by simp
    then show ?thesis using "2.IH"(1) [OF True] by auto
  next
    case nl: False
    show ?thesis
    proof (cases "c = 13 \<and> cs \<noteq> [] \<and> hd cs = 10")
      case True
      then have "l = [] \<or> l \<in> set (splitLines (tl cs))" using "2.prems" nl by simp
      moreover have "set (tl cs) \<subseteq> set cs" by (cases cs) auto
      ultimately show ?thesis using "2.IH"(2) [OF nl True] by auto
    next
      case False
      obtain h t where ht: "splitLines cs = h # t"
        using splitLines_not_Nil [of cs] by (cases "splitLines cs") auto
      have eq: "splitLines (c # cs) = (c # h) # t"
        using nl False ht by simp
      have "l = c # h \<or> l \<in> set t" using "2.prems" unfolding eq by simp
      moreover have "set h \<subseteq> set cs" "\<And>x. x \<in> set t \<Longrightarrow> set x \<subseteq> set cs"
        using "2.IH"(3) [OF nl False] ht by simp_all
      ultimately show ?thesis by auto
    qed
  qed
qed

lemma trim_js_all_space: "(\<forall>c\<in>set s. isSpace c) \<Longrightarrow> trim_js s = []"
proof -
  assume "\<forall>c\<in>set s. isSpace c"
  then have "dropWhile isSpace s = []" by simp
  then show ?thesis unfolding trim_js_def by (simp only: rev.simps dropWhile.simps)
qed

lemma isSpace_32: "isSpace 32"
  by (simp add: isSpace_def)

lemma trim_js_snoc_space: "trim_js (s @ [32]) = trim_js s"
proof (cases "\<forall>c\<in>set s. isSpace c")
  case True
  then have "\<forall>c\<in>set (s @ [32]). isSpace c" by (simp add: isSpace_32)
  then have "trim_js (s @ [32]) = []" by (rule trim_js_all_space)
  with True show ?thesis by (simp add: trim_js_all_space)
next
  case False
  then obtain x where "x \<in> set s" "\<not> isSpace x" by blast
  then have "dropWhile isSpace (s @ [32]) = dropWhile isSpace s @ [32]"
    by (rule dropWhile_append1)
  then show ?thesis by (simp add: trim_js_def isSpace_32)
qed

lemma sublist_trim_js: "sublist (trim_js s) s"
proof -
  have "sublist (dropWhile isSpace (rev (dropWhile isSpace s))) (rev (dropWhile isSpace s))"
    by simp
  then have "sublist (trim_js s) (dropWhile isSpace s)"
    by (simp add: trim_js_def sublist_rev_left)
  moreover have "sublist (dropWhile isSpace s) s" by simp
  ultimately show ?thesis by (rule sublist_order.order.trans)
qed

lemma foldl_fixed: "(\<And>x. x \<in> set xs \<Longrightarrow> f a x = a) \<Longrightarrow> foldl f a xs = a"
  by (induction xs) auto

lemma predictStep_blank: "trim_js line = [] \<Longrightarrow> predictStep st line = st"
  by (simp add: predictStep_def)

lemma reportStep_blank: "reportStep st [] = st"
  by (simp add: reportStep_def)

section \<open>Blank input\<close>

text \<open>
  Claim C2. Both builders are total functions into the record of their result, so each
  call returns a result with every field present: the lists are lists of strings (of
  condition records for \<open>conditions\<close>) and the disclaimer is a string. For an absent
  input (\<open>None\<close>) and for every input made of white space only, the empty string
  included, every list and every string of the result is empty.
\<close>

theorem blank_input_gives_empty_results:
  "buildStructuredResult None = \<lparr>introParagraphs = [], conditions = [], redFlags = [],
      selfCare = [], specialist = [], disclaimer = []\<rparr>
   \<and> buildReportStructure None = \<lparr>summaryTitle = [], intro = [], findings = [],
      diagnoses = [], medications = [], followups = [], reportDisclaimer = []\<rparr>
   \<and> ((\<forall>c\<in>set s. isSpace c) \<longrightarrow>
        buildStructuredResult (Some s) = \<lparr>introParagraphs = [], conditions = [],
          redFlags = [], selfCare = [], specialist = [], disclaimer = []\<rparr>
        \<and> buildReportStructure (Some s) = \<lparr>summaryTitle = [], intro = [], findings = [],
          diagnoses = [], medications = [], followups = [], reportDisclaimer = []\<rparr>)"
proof (intro conjI impI)
  show "buildStructuredResult None = \<lparr>introParagraphs = [], conditions = [], redFlags = [],
      selfCare = [], specialist = [], disclaimer = []\<rparr>"
    by (simp add: buildStructuredResult_def base_def)
  show "buildReportStructure None = \<lparr>summaryTitle = [], intro = [], findings = [],
      diagnoses = [], medications = [], followups = [], reportDisclaimer = []\<rparr>"
    by (simp add: buildReportStructure_def reportBase_def)
next
  assume sp: "\<forall>c\<in>set s. isSpace c"
  have blank: "trim_js l = []" if "l \<in> set (splitLines s)" for l
  proof (rule trim_js_all_space)
    show "\<forall>c\<in>set l. isSpace c" using splitLines_chars [OF that] sp by blast
  qed
  have "foldl predictStep (Intro, base) (splitLines s) = (Intro, base)"
    by (rule foldl_fixed) (simp add: blank predictStep_blank)
  moreover have "trim_js [] = []" by (simp add: trim_js_def)
  ultimately show "buildStructuredResult (Some s) = \<lparr>introParagraphs = [], conditions = [],
          redFlags = [], selfCare = [], specialist = [], disclaimer = []\<rparr>"
    by (simp add: buildStructuredResult_def base_def)
  have "foldl reportStep (ReportIntro, reportBase) (map trim_js (splitLines s))
          = (ReportIntro, reportBase)"
  proof (rule foldl_fixed)
    fix x assume "x \<in> set (map trim_js (splitLines s))"
    then have "x = []" using blank by auto
    then show "reportStep (ReportIntro, reportBase) x = (ReportIntro, reportBase)"
      by (simp add: reportStep_blank)
  qed
  moreover have "trim_js [] = []" by (simp add: trim_js_def)
  ultimately show "buildReportStructure (Some s) = \<lparr>summaryTitle = [], intro = [], findings = [],
          diagnoses = [], medications = [], followups = [], reportDisclaimer = []\<rparr>"
    by (simp add: buildReportStructure_def reportBase_def)
qed

theorem blank_input_witness:
  "isSpace 32 \<and> isSpace 9 \<and> isSpace 10 \<and> isSpace 160 \<and> isSpace 13
   \<and> buildStructuredResult (Some [32, 9, 10, 160, 13, 10, 32]) = base
   \<and> buildReportStructure (Some [32, 9, 10, 160, 13, 10, 32]) = reportBase"
proof -
  have h: "\<forall>c\<in>set [32, 9, 10, 160, 13, 10, 32]. isSpace c"
    by (simp add: isSpace_def)
  then have "isSpace 32 \<and> isSpace 9 \<and> isSpace 10 \<and> isSpace 160 \<and> isSpace 13"
    by simp
  then show ?thesis
    using h blank_input_gives_empty_results [of "[32, 9, 10, 160, 13, 10, 32]"]
    unfolding base_def reportBase_def by blast
qed

section \<open>Lines with empty normalized form\<close>

text \<open>
  Claim C4. A line that is neither blank nor a header and whose normalized form is empty
  should add nothing. The line "-" is such a line. Prediction mode stores its empty
  normalized form in the red flags and in the intro paragraphs, and it adds a space to
  the disclaimer; report mode skips it.
\<close>

theorem empty_bullet_is_stored:
  "trim_js (js ''-'') \<noteq> [] \<and> resolveSection (js ''-'') = None \<and> cleanBullet (js ''-'') = []
   \<and> redFlags (buildStructuredResult (Some (js ''Red flags:'' @ [10] @ js ''-''))) = [[]]
   \<and> introParagraphs (buildStructuredResult (Some (js ''-''))) = [[]]
   \<and> disclaimer (buildStructuredResult (Some (js ''Disclaimer:'' @ [10] @ js ''a'' @ [10]
        @ js ''-'' @ [10] @ js ''b''))) = js ''a  b''
   \<and> findings (buildReportStructure (Some (js ''Key findings:'' @ [10] @ js ''-''))) = []"
  by (simp add: parser_defs)

section \<open>Condition lines without body\<close>

text \<open>
  Claim C5. A bullet-prefixed line of the conditions section whose body is empty after
  normalization, removal of the confidence span and stripping of the leading separator
  should give no record. \<open>parseCondition\<close> tests the body right after normalization
  only. The line "- : **High**" of the claim starts with a bullet and nothing is left of
  its body after the three steps, yet a record with an empty title is stored; the same
  happens for "- :".
\<close>

theorem separator_only_condition_record:
  "startsWithBullet (js ''- : **High**'') \<and> bodyAfterSteps (js ''- : **High**'') = []
   \<and> conditions (buildStructuredResult (Some (js ''Likely conditions:'' @ [10]
        @ js ''- : **High**'')))
     = [\<lparr>title = [], summary = [], confidenceLabel = js ''High'', confidencePercent = 75\<rparr>]
   \<and> startsWithBullet (js ''- :'') \<and> bodyAfterSteps (js ''- :'') = []
   \<and> conditions (buildStructuredResult (Some (js ''Likely conditions:'' @ [10]
        @ js ''- :'')))
     = [\<lparr>title = [], summary = [], confidenceLabel = [], confidencePercent = 60\<rparr>]"
  by (simp add: parser_defs)

text \<open>The guard of \<open>parseCondition\<close>: a line whose normalized form is empty gives no
  record and adds nothing to the conditions.\<close>

lemma parseCondition_guard:
  "cleanBullet line = [] \<Longrightarrow> parseCondition line = None \<and> routeLine Conditions line b = b"
  by (simp add: parseCondition_def)

text \<open>Report mode makes the check that prediction mode lacks: a content line whose
  normalized form is empty leaves the state of the loop unchanged.\<close>

lemma reportStep_empty_content:
  "resolveReportSection line = None \<Longrightarrow> stripMarkers line = [] \<Longrightarrow> reportStep st line = st"
  by (simp add: reportStep_def)

section \<open>The loops as functions of the content lines\<close>

lemma predictStep_unfold:
  "predictStep (sec, b) line =
     (if trim_js line = [] then (sec, b)
      else (case resolveSection (trim_js line) of
              Some new \<Rightarrow> (new, b)
            | None \<Rightarrow> (sec, routeLine sec (trim_js line) b)))"
  by (simp add: predictStep_def Let_def split: option.split)

text \<open>A field that \<open>routeLine\<close> extends in section \<open>K\<close> only is, after the loop, its
  initial value followed by the contributions of the content lines of \<open>K\<close>.\<close>

lemma foldl_predictStep_field:
  assumes route: "\<And>k t b. F (routeLine k t b) = F b @ (if k = K then g t else [])"
  shows "F (snd (foldl predictStep (sec, b) ls))
           = F b @ concat (map g (contentLines K sec ls))"
proof (induction ls arbitrary: sec b)
  case Nil
  show ?case by simp
next
  case (Cons l ls)
  show ?case
  proof (cases "trim_js l = []")
    case True
    then show ?thesis using Cons.IH [of sec b] by (simp add: predictStep_unfold)
  next
    case nonblank: False
    show ?thesis
    proof (cases "resolveSection (trim_js l)")
      case None
      then show ?thesis
        using nonblank Cons.IH [of sec "routeLine sec (trim_js l) b"]
        by (simp add: predictStep_unfold route)
    next
      case (Some new)
      then show ?thesis
        using nonblank Cons.IH [of new b] by (simp add: predictStep_unfold)
    qed
  qed
qed

lemma introParagraphs_loop:
  "introParagraphs (snd (foldl predictStep (sec, b) ls))
     = introParagraphs b @ map cleanBullet (contentLines Intro sec ls)"
proof -
  have "introParagraphs (routeLine k t b)
          = introParagraphs b @ (if k = Intro then [cleanBullet t] else [])" for k t b
    by (cases k) (simp_all split: option.splits)
  from foldl_predictStep_field [of introParagraphs Intro "\<lambda>t. [cleanBullet t]", OF this]
  show ?thesis by simp
qed

lemma redFlags_loop:
  "redFlags (snd (foldl predictStep (sec, b) ls))
     = redFlags b @ map cleanBullet (contentLines RedFlags sec ls)"
proof -
  have "redFlags (routeLine k t b)
          = redFlags b @ (if k = RedFlags then [cleanBullet t] else [])" for k t b
    by (cases k) (simp_all split: option.splits)
  from foldl_predictStep_field [of redFlags RedFlags "\<lambda>t. [cleanBullet t]", OF this]
  show ?thesis by simp
qed

lemma selfCare_loop:
  "selfCare (snd (foldl predictStep (sec, b) ls))
     = selfCare b @ map cleanBullet (contentLines SelfCare sec ls)"
proof -
  have "selfCare (routeLine k t b)
          = selfCare b @ (if k = SelfCare then [cleanBullet t] else [])" for k t b
    by (cases k) (simp_all split: option.splits)
  from foldl_predictStep_field [of selfCare SelfCare "\<lambda>t. [cleanBullet t]", OF this]
  show ?thesis by simp
qed

lemma specialist_loop:
  "specialist (snd (foldl predictStep (sec, b) ls))
     = specialist b @ map cleanBullet (contentLines Specialist sec ls)"
proof -
  have "specialist (routeLine k t b)
          = specialist b @ (if k = Specialist then [cleanBullet t] else [])" for k t b
    by (cases k) (simp_all split: option.splits)
  from foldl_predictStep_field [of specialist Specialist "\<lambda>t. [cleanBullet t]", OF this]
  show ?thesis by simp
qed

lemma disclaimer_loop:
  "disclaimer (snd (foldl predictStep (sec, b) ls))
     = disclaimer b @ concat (map (\<lambda>t. cleanBullet t @ [32]) (contentLines Disclaimer sec ls))"
proof -
  have "disclaimer (routeLine k t b)
          = disclaimer b @ (if k = Disclaimer then cleanBullet t @ [32] else [])" for k t b
    by (cases k) (simp_all split: option.splits)
  from foldl_predictStep_field [of disclaimer Disclaimer "\<lambda>t. cleanBullet t @ [32]", OF this]
  show ?thesis .
qed

text \<open>The records a content line of the conditions section contributes.\<close>

lemma conditions_loop:
  "conditions (snd (foldl predictStep (sec, b) ls))
     = conditions b @ concat (map (\<lambda>t. if startsWithBullet t
          then (case parseCondition t of Some parsed \<Rightarrow> [parsed] | None \<Rightarrow> []) else [])
        (contentLines Conditions sec ls))"
proof -
  have "conditions (routeLine k t b)
          = conditions b @ (if k = Conditions then (if startsWithBullet t
          then (case parseCondition t of Some parsed \<Rightarrow> [parsed] | None \<Rightarrow> []) else []) else [])" for k t b
    by (cases k) (simp_all split: option.splits)
  from foldl_predictStep_field [of conditions Conditions, OF this]
  show ?thesis .
qed

lemma reportStep_unfold:
  "reportStep (sec, b) line =
     (if line = [] then (sec, b)
      else (case resolveReportSection line of
              Some new \<Rightarrow>
                if new = SummaryTitle then (ReportIntro, b\<lparr>summaryTitle := stripMarkers line\<rparr>)
                else (new, b)
            | None \<Rightarrow>
                if stripMarkers line = [] then (sec, b)
                else (sec, routeContent sec (stripMarkers line) b)))"
  by (simp add: reportStep_def Let_def split: option.split)

text \<open>The active section of the report loop is never the summary title: that header
  leaves the intro section active.\<close>

lemma foldl_reportStep_field:
  assumes route: "\<And>k c b. k \<noteq> SummaryTitle \<Longrightarrow>
                    F (routeContent k c b) = F b @ (if k = K then g c else [])"
    and title: "\<And>b v. F (b\<lparr>summaryTitle := v\<rparr>) = F b"
    and sec: "sec \<noteq> SummaryTitle"
  shows "F (snd (foldl reportStep (sec, b) ls))
           = F b @ concat (map g (filter (\<lambda>c. c \<noteq> [])
                                  (map stripMarkers (reportContentLines K sec ls))))"
  using sec
proof (induction ls arbitrary: sec b)
  case Nil
  show ?case by simp
next
  case (Cons l ls)
  show ?case
  proof (cases "l = []")
    case True
    then show ?thesis using Cons.IH [OF Cons.prems, of b] by (simp add: reportStep_unfold)
  next
    case nonblank: False
    show ?thesis
    proof (cases "resolveReportSection l")
      case None
      show ?thesis
      proof (cases "stripMarkers l = []")
        case True
        then show ?thesis
          using nonblank None Cons.IH [OF Cons.prems, of b] by (simp add: reportStep_unfold)
      next
        case False
        then show ?thesis
          using nonblank None Cons.prems
            Cons.IH [OF Cons.prems, of "routeContent sec (stripMarkers l) b"]
          by (simp add: reportStep_unfold route)
      qed
    next
      case (Some new)
      show ?thesis
      proof (cases "new = SummaryTitle")
        case True
        have "ReportIntro \<noteq> SummaryTitle" by simp
        from Cons.IH [OF this, of "b\<lparr>summaryTitle := stripMarkers l\<rparr>"]
        show ?thesis using nonblank Some True by (simp add: reportStep_unfold title)
      next
        case False
        from Cons.IH [OF this, of b]
        show ?thesis using nonblank Some False by (simp add: reportStep_unfold)
      qed
    qed
  qed
qed

lemma intro_loop:
  "sec \<noteq> SummaryTitle \<Longrightarrow>
   intro (snd (foldl reportStep (sec, b) ls))
     = intro b @ filter (\<lambda>c. c \<noteq> []) (map stripMarkers (reportContentLines ReportIntro sec ls))"
proof -
  assume sec: "sec \<noteq> SummaryTitle"
  have "intro (routeContent k c b) = intro b @ (if k = ReportIntro then [c] else [])"
    if "k \<noteq> SummaryTitle" for k c b
    using that by (cases k) simp_all
  from foldl_reportStep_field [of intro ReportIntro "\<lambda>c. [c]", OF this _ sec]
  show ?thesis by simp
qed

lemma findings_loop:
  "sec \<noteq> SummaryTitle \<Longrightarrow>
   findings (snd (foldl reportStep (sec, b) ls))
     = findings b @ filter (\<lambda>c. c \<noteq> []) (map stripMarkers (reportContentLines Findings sec ls))"
proof -
  assume sec: "sec \<noteq> SummaryTitle"
  have "findings (routeContent k c b) = findings b @ (if k = Findings then [c] else [])"
    for k c b
    by (cases k) simp_all
  from foldl_reportStep_field [of findings Findings "\<lambda>c. [c]", OF this _ sec]
  show ?thesis by simp
qed

lemma diagnoses_loop:
  "sec \<noteq> SummaryTitle \<Longrightarrow>
   diagnoses (snd (foldl reportStep (sec, b) ls))
     = diagnoses b @ filter (\<lambda>c. c \<noteq> []) (map stripMarkers (reportContentLines Diagnoses sec ls))"
proof -
  assume sec: "sec \<noteq> SummaryTitle"
  have "diagnoses (routeContent k c b) = diagnoses b @ (if k = Diagnoses then [c] else [])"
    for k c b
    by (cases k) simp_all
  from foldl_reportStep_field [of diagnoses Diagnoses "\<lambda>c. [c]", OF this _ sec]
  show ?thesis by simp
qed

lemma medications_loop:
  "sec \<noteq> SummaryTitle \<Longrightarrow>
   medications (snd (foldl reportStep (sec, b) ls))
     = medications b
       @ filter (\<lambda>c. c \<noteq> []) (map stripMarkers (reportContentLines Medications sec ls))"
proof -
  assume sec: "sec \<noteq> SummaryTitle"
  have "medications (routeContent k c b)
          = medications b @ (if k = Medications then [c] else [])" for k c b
    by (cases k) simp_all
  from foldl_reportStep_field [of medications Medications "\<lambda>c. [c]", OF this _ sec]
  show ?thesis by simp
qed

lemma followups_loop:
  "sec \<noteq> SummaryTitle \<Longrightarrow>
   followups (snd (foldl reportStep (sec, b) ls))
     = followups b
       @ filter (\<lambda>c. c \<noteq> []) (map stripMarkers (reportContentLines Followups sec ls))"
proof -
  assume sec: "sec \<noteq> SummaryTitle"
  have "followups (routeContent k c b) = followups b @ (if k = Followups then [c] else [])"
    for k c b
    by (cases k) simp_all
  from foldl_reportStep_field [of followups Followups "\<lambda>c. [c]", OF this _ sec]
  show ?thesis by simp
qed

lemma reportDisclaimer_loop:
  "sec \<noteq> SummaryTitle \<Longrightarrow>
   reportDisclaimer (snd (foldl reportStep (sec, b) ls))
     = reportDisclaimer b
       @ concat (map (\<lambda>c. c @ [32]) (filter (\<lambda>c. c \<noteq> [])
           (map stripMarkers (reportContentLines ReportDisclaimer sec ls))))"
proof -
  assume sec: "sec \<noteq> SummaryTitle"
  have "reportDisclaimer (routeContent k c b)
          = reportDisclaimer b @ (if k = ReportDisclaimer then c @ [32] else [])" for k c b
    by (cases k) simp_all
  from foldl_reportStep_field [of reportDisclaimer ReportDisclaimer "\<lambda>c. c @ [32]", OF this _ sec]
  show ?thesis by simp
qed

section \<open>The disclaimer\<close>

lemma concat_space_join:
  "xs \<noteq> [] \<Longrightarrow> concat (map (\<lambda>x. x @ [32]) xs) = join_js [32] xs @ [32]"
  by (induction "[32::nat]" xs rule: join_js.induct) simp_all

lemma trim_js_Nil: "trim_js [] = []"
  by (simp add: trim_js_def)

lemma trim_concat_space:
  "trim_js (concat (map (\<lambda>x. x @ [32]) xs)) = trim_js (join_js [32] xs)"
proof (cases "xs = []")
  case True
  then show ?thesis by simp
next
  case False
  then have "concat (map (\<lambda>x. x @ [32]) xs) = join_js [32] xs @ [32]"
    by (rule concat_space_join)
  then show ?thesis by (simp only: trim_js_snoc_space)
qed

text \<open>What each loop accumulates as disclaimer. Report mode joins, with single spaces
  (code unit 32), the normalized content lines of the disclaimer section that are not
  empty, and trims the result.\<close>

lemma reportDisclaimer_joined:
  "reportDisclaimer (buildReportStructure (Some text))
     = trim_js (join_js [32] (filter (\<lambda>c. c \<noteq> [])
         (map stripMarkers
            (reportContentLines ReportDisclaimer ReportIntro (map trim_js (splitLines text))))))"
proof (cases "text = []")
  case True
  then show ?thesis
    by (simp add: buildReportStructure_def reportBase_def trim_js_Nil)
next
  case False
  have "reportDisclaimer (buildReportStructure (Some text))
          = trim_js (reportDisclaimer (snd (foldl reportStep (ReportIntro, reportBase)
              (map trim_js (splitLines text)))))"
    using False by (simp add: buildReportStructure_def Let_def)
  also have "\<dots> = trim_js (concat (map (\<lambda>x. x @ [32]) (filter (\<lambda>c. c \<noteq> [])
       (map stripMarkers
          (reportContentLines ReportDisclaimer ReportIntro (map trim_js (splitLines text)))))))"
    by (simp add: reportDisclaimer_loop reportBase_def)
  finally show ?thesis by (simp only: trim_concat_space)
qed

text \<open>Prediction mode joins the normalized form of every content line of the disclaimer
  section, the empty ones included.\<close>

lemma disclaimer_accumulated:
  "disclaimer (buildStructuredResult (Some text))
     = trim_js (join_js [32]
         (map cleanBullet (contentLines Disclaimer Intro (splitLines text))))"
proof (cases "text = []")
  case True
  then show ?thesis
    by (simp add: buildStructuredResult_def base_def trim_js_Nil)
next
  case False
  have "disclaimer (buildStructuredResult (Some text))
          = trim_js (disclaimer (snd (foldl predictStep (Intro, base) (splitLines text))))"
    using False by (simp add: buildStructuredResult_def Let_def)
  also have "\<dots> = trim_js (concat (map (\<lambda>x. x @ [32])
               (map cleanBullet (contentLines Disclaimer Intro (splitLines text)))))"
    by (simp add: disclaimer_loop base_def comp_def)
  finally show ?thesis by (simp only: trim_concat_space)
qed

text \<open>
  Claim C8. In both modes the disclaimer should be the normalized content lines of the
  disclaimer section joined by single spaces and trimmed once at the end. The lines
  "This is for" and "information only." give "This is for information only." in both
  modes. For the disclaimer lines "a", "-", "b" the normalized content is "a" and "b",
  which joined give "a b": report mode returns that, prediction mode returns "a  b" with
  two spaces, since it also appends the empty normalized form of "-" and a space.
\<close>

theorem disclaimer_keeps_empty_lines:
  "disclaimer (buildStructuredResult (Some (js ''Disclaimer:'' @ [10] @ js ''a'' @ [10]
        @ js ''-'' @ [10] @ js ''b''))) = js ''a  b''
   \<and> trim_js (join_js [32] (filter (\<lambda>c. c \<noteq> []) (map cleanBullet
        (contentLines Disclaimer Intro (splitLines (js ''Disclaimer:'' @ [10] @ js ''a''
           @ [10] @ js ''-'' @ [10] @ js ''b'')))))) = js ''a b''
   \<and> reportDisclaimer (buildReportStructure (Some (js ''Disclaimer:'' @ [10] @ js ''a''
        @ [10] @ js ''-'' @ [10] @ js ''b''))) = js ''a b''
   \<and> disclaimer (buildStructuredResult (Some (js ''Disclaimer:'' @ [10] @ js ''This is for''
         @ [10] @ js ''information only.''))) = js ''This is for information only.''
   \<and> reportDisclaimer (buildReportStructure (Some (js ''Disclaimer:'' @ [10]
         @ js ''This is for'' @ [10] @ js ''information only.'')))
       = js ''This is for information only.''"
  by (simp add: parser_defs)

section \<open>Report mode: headers and content\<close>

lemma reportContentLines_origin:
  "x \<in> set (reportContentLines K sec ls)
   \<Longrightarrow> x \<in> set ls \<and> x \<noteq> [] \<and> resolveReportSection x = None"
proof (induction ls arbitrary: sec)
  case Nil
  then show ?case by simp
next
  case (Cons l ls)
  show ?case
  proof (cases "l = []")
    case True
    with Cons show ?thesis by simp
  next
    case nonblank: False
    show ?thesis
    proof (cases "resolveReportSection l")
      case None
      with Cons nonblank show ?thesis by (auto split: if_splits)
    next
      case (Some new)
      with Cons nonblank show ?thesis by simp
    qed
  qed
qed

lemma report_loop_start: "ReportIntro \<noteq> SummaryTitle"
  by simp

lemmas report_lists =
  intro_loop [OF report_loop_start] findings_loop [OF report_loop_start]
  diagnoses_loop [OF report_loop_start] medications_loop [OF report_loop_start]
  followups_loop [OF report_loop_start]

lemma report_lists_of_text:
  "text \<noteq> [] \<Longrightarrow>
   intro (buildReportStructure (Some text))
     = filter (\<lambda>c. c \<noteq> []) (map stripMarkers
         (reportContentLines ReportIntro ReportIntro (map trim_js (splitLines text))))
   \<and> findings (buildReportStructure (Some text))
     = filter (\<lambda>c. c \<noteq> []) (map stripMarkers
         (reportContentLines Findings ReportIntro (map trim_js (splitLines text))))
   \<and> diagnoses (buildReportStructure (Some text))
     = filter (\<lambda>c. c \<noteq> []) (map stripMarkers
         (reportContentLines Diagnoses ReportIntro (map trim_js (splitLines text))))
   \<and> medications (buildReportStructure (Some text))
     = filter (\<lambda>c. c \<noteq> []) (map stripMarkers
         (reportContentLines Medications ReportIntro (map trim_js (splitLines text))))
   \<and> followups (buildReportStructure (Some text))
     = filter (\<lambda>c. c \<noteq> []) (map stripMarkers
         (reportContentLines Followups ReportIntro (map trim_js (splitLines text))))"
  by (simp add: buildReportStructure_def Let_def report_lists reportBase_def)

lemma report_lists_of_empty:
  "intro (buildReportStructure (Some [])) = []
   \<and> findings (buildReportStructure (Some [])) = []
   \<and> diagnoses (buildReportStructure (Some [])) = []
   \<and> medications (buildReportStructure (Some [])) = []
   \<and> followups (buildReportStructure (Some [])) = []"
  by (simp add: buildReportStructure_def reportBase_def)

text \<open>
  Claim C10. Every element of the findings, diagnoses, medications and follow-ups of a
  report is a non-empty string.
\<close>

theorem report_items_nonempty:
  "\<forall>x \<in> set (findings (buildReportStructure (Some text)))
        \<union> set (diagnoses (buildReportStructure (Some text)))
        \<union> set (medications (buildReportStructure (Some text)))
        \<union> set (followups (buildReportStructure (Some text))). x \<noteq> []"
proof (cases "text = []")
  case True
  then show ?thesis using report_lists_of_empty by simp
next
  case False
  show ?thesis
    unfolding report_lists_of_text [OF False, THEN conjunct2, THEN conjunct1]
      report_lists_of_text [OF False, THEN conjunct2, THEN conjunct2, THEN conjunct1]
      report_lists_of_text [OF False, THEN conjunct2, THEN conjunct2, THEN conjunct2, THEN conjunct1]
      report_lists_of_text [OF False, THEN conjunct2, THEN conjunct2, THEN conjunct2, THEN conjunct2]
    by auto
qed

theorem report_items_nonempty_witness:
  "js ''Elevated WBC'' \<in> set (findings (buildReportStructure (Some (js ''Key Findings:''
      @ [10] @ js ''- Elevated WBC'' @ [10] @ js ''-''))))
   \<and> js ''Elevated WBC'' \<noteq> []"
proof -
  have "findings (buildReportStructure (Some (js ''Key Findings:''
      @ [10] @ js ''- Elevated WBC'' @ [10] @ js ''-''))) = [js ''Elevated WBC'']"
    by (simp add: parser_defs)
  then show ?thesis
    using report_items_nonempty [of "js ''Key Findings:''
      @ [10] @ js ''- Elevated WBC'' @ [10] @ js ''-''"]
    by simp
qed

text \<open>
  Claim C9. A header line of report mode only changes the active section and adds
  nothing to the result, except that a summary title line becomes, after
  \<open>stripMarkers\<close>, the summary title and leaves the intro section active. Hence every
  element of the lists of the result is the normalized text of a line that matches no
  header rule. For the input of scenario C, the summary title contains "Mild infection",
  the findings are "Elevated WBC" and the diagnoses "Viral infection (med)".
\<close>

theorem report_headers_are_not_content:
  "(line \<noteq> [] \<and> resolveReportSection line = Some k \<longrightarrow>
      reportStep (sec, b) line
        = (if k = SummaryTitle then (ReportIntro, b\<lparr>summaryTitle := stripMarkers line\<rparr>)
           else (k, b)))
   \<and> (\<forall>x \<in> set (intro (buildReportStructure (Some text)))
          \<union> set (findings (buildReportStructure (Some text)))
          \<union> set (diagnoses (buildReportStructure (Some text)))
          \<union> set (medications (buildReportStructure (Some text)))
          \<union> set (followups (buildReportStructure (Some text))).
        \<exists>l \<in> set (map trim_js (splitLines text)).
          resolveReportSection l = None \<and> x = stripMarkers l)
   \<and> sublist (js ''Mild infection'') (summaryTitle (buildReportStructure (Some
        (js ''**Summary:** Mild infection'' @ [10] @ js ''Key Findings:'' @ [10]
         @ js ''- Elevated WBC'' @ [10] @ js ''Diagnoses:'' @ [10]
         @ js ''- Viral infection (med)''))))
   \<and> findings (buildReportStructure (Some
        (js ''**Summary:** Mild infection'' @ [10] @ js ''Key Findings:'' @ [10]
         @ js ''- Elevated WBC'' @ [10] @ js ''Diagnoses:'' @ [10]
         @ js ''- Viral infection (med)''))) = [js ''Elevated WBC'']
   \<and> diagnoses (buildReportStructure (Some
        (js ''**Summary:** Mild infection'' @ [10] @ js ''Key Findings:'' @ [10]
         @ js ''- Elevated WBC'' @ [10] @ js ''Diagnoses:'' @ [10]
         @ js ''- Viral infection (med)''))) = [js ''Viral infection (med)'']"
proof (intro conjI)
  show "line \<noteq> [] \<and> resolveReportSection line = Some k \<longrightarrow>
      reportStep (sec, b) line
        = (if k = SummaryTitle then (ReportIntro, b\<lparr>summaryTitle := stripMarkers line\<rparr>)
           else (k, b))"
    by (simp add: reportStep_unfold)
  show "\<forall>x \<in> set (intro (buildReportStructure (Some text)))
          \<union> set (findings (buildReportStructure (Some text)))
          \<union> set (diagnoses (buildReportStructure (Some text)))
          \<union> set (medications (buildReportStructure (Some text)))
          \<union> set (followups (buildReportStructure (Some text))).
        \<exists>l \<in> set (map trim_js (splitLines text)).
          resolveReportSection l = None \<and> x = stripMarkers l"
  proof (cases "text = []")
    case True
    then show ?thesis using report_lists_of_empty by simp
  next
    case False
    have origin: "\<exists>l \<in> set ls. resolveReportSection l = None \<and> x = stripMarkers l"
      if "x \<in> set (filter (\<lambda>c. c \<noteq> []) (map stripMarkers (reportContentLines K sec ls)))"
      for x K sec ls
    proof -
      from that obtain l where "l \<in> set (reportContentLines K sec ls)" "x = stripMarkers l"
        by auto
      then show ?thesis using reportContentLines_origin [of l K sec ls] by blast
    qed
    show ?thesis
    proof
      fix x
      assume "x \<in> set (intro (buildReportStructure (Some text)))
          \<union> set (findings (buildReportStructure (Some text)))
          \<union> set (diagnoses (buildReportStructure (Some text)))
          \<union> set (medications (buildReportStructure (Some text)))
          \<union> set (followups (buildReportStructure (Some text)))"
      then obtain K where
        "x \<in> set (filter (\<lambda>c. c \<noteq> []) (map stripMarkers
           (reportContentLines K ReportIntro (map trim_js (splitLines text)))))"
        using report_lists_of_text [OF False] by (elim UnE) metis+
      then show "\<exists>l \<in> set (map trim_js (splitLines text)).
          resolveReportSection l = None \<and> x = stripMarkers l"
        by (rule origin)
    qed
  qed
  show "sublist (js ''Mild infection'') (summaryTitle (buildReportStructure (Some
        (js ''**Summary:** Mild infection'' @ [10] @ js ''Key Findings:'' @ [10]
         @ js ''- Elevated WBC'' @ [10] @ js ''Diagnoses:'' @ [10]
         @ js ''- Viral infection (med)''))))"
  proof -
    have "summaryTitle (buildReportStructure (Some
        (js ''**Summary:** Mild infection'' @ [10] @ js ''Key Findings:'' @ [10]
         @ js ''- Elevated WBC'' @ [10] @ js ''Diagnoses:'' @ [10]
         @ js ''- Viral infection (med)''))) = js ''Summary:** '' @ js ''Mild infection'' @ []"
      by (simp add: parser_defs)
    then show ?thesis by (simp only: sublist_appendI)
  qed
  show "findings (buildReportStructure (Some
        (js ''**Summary:** Mild infection'' @ [10] @ js ''Key Findings:'' @ [10]
         @ js ''- Elevated WBC'' @ [10] @ js ''Diagnoses:'' @ [10]
         @ js ''- Viral infection (med)''))) = [js ''Elevated WBC'']"
    by (simp add: parser_defs)
  show "diagnoses (buildReportStructure (Some
        (js ''**Summary:** Mild infection'' @ [10] @ js ''Key Findings:'' @ [10]
         @ js ''- Elevated WBC'' @ [10] @ js ''Diagnoses:'' @ [10]
         @ js ''- Viral infection (med)''))) = [js ''Viral infection (med)'']"
    by (simp add: parser_defs)
qed

theorem report_headers_witness:
  "js ''Key Findings:'' \<noteq> []
   \<and> resolveReportSection (js ''Key Findings:'') = Some Findings
   \<and> reportStep (ReportIntro, reportBase) (js ''Key Findings:'') = (Findings, reportBase)
   \<and> js ''Elevated WBC'' \<in> set (findings (buildReportStructure (Some
        (js ''Key Findings:'' @ [10] @ js ''- Elevated WBC''))))
   \<and> resolveReportSection (js ''- Elevated WBC'') = None
   \<and> js ''Elevated WBC'' = stripMarkers (js ''- Elevated WBC'')"
proof -
  have h1: "js ''Key Findings:'' \<noteq> [] \<and> resolveReportSection (js ''Key Findings:'') = Some Findings"
    by (simp add: parser_defs)
  have h2: "findings (buildReportStructure (Some
        (js ''Key Findings:'' @ [10] @ js ''- Elevated WBC''))) = [js ''Elevated WBC'']"
    by (simp add: parser_defs)
  have inst: "(js ''Key Findings:'' \<noteq> [] \<and> resolveReportSection (js ''Key Findings:'') = Some Findings
        \<longrightarrow> reportStep (ReportIntro, reportBase) (js ''Key Findings:'') = (Findings, reportBase))
      \<and> (\<forall>x \<in> set (findings (buildReportStructure (Some
            (js ''Key Findings:'' @ [10] @ js ''- Elevated WBC'')))).
          \<exists>l \<in> set (map trim_js (splitLines (js ''Key Findings:'' @ [10] @ js ''- Elevated WBC''))).
            resolveReportSection l = None \<and> x = stripMarkers l)"
    using report_headers_are_not_content [of "js ''Key Findings:''" Findings ReportIntro
        reportBase "js ''Key Findings:'' @ [10] @ js ''- Elevated WBC''"]
    by simp
  have step: "reportStep (ReportIntro, reportBase) (js ''Key Findings:'') = (Findings, reportBase)"
    using inst h1 by simp
  have "js ''Elevated WBC'' \<in> set (findings (buildReportStructure (Some
        (js ''Key Findings:'' @ [10] @ js ''- Elevated WBC''))))"
    using h2 by simp
  then obtain l where
    "l \<in> set (map trim_js (splitLines (js ''Key Findings:'' @ [10] @ js ''- Elevated WBC'')))"
    "resolveReportSection l = None" "js ''Elevated WBC'' = stripMarkers l"
    using inst by blast
  moreover have "map trim_js (splitLines (js ''Key Findings:'' @ [10] @ js ''- Elevated WBC''))
      = [js ''Key Findings:'', js ''- Elevated WBC'']"
    by (simp add: parser_defs)
  ultimately have "resolveReportSection (js ''- Elevated WBC'') = None
      \<and> js ''Elevated WBC'' = stripMarkers (js ''- Elevated WBC'')"
    using h1 by auto
  then show ?thesis using h1 h2 step by simp
qed

section \<open>Prediction mode: sections without header\<close>

lemma searchRe_iff: "searchRe m s \<longleftrightarrow> (\<exists>t. suffix t s \<and> m t)"
  by (induction s) (auto simp: suffix_Cons)

lemma searchRe_sublist:
  assumes ext: "\<And>t e. m t \<Longrightarrow> m (t @ e)"
    and sub: "sublist x y" and found: "searchRe m x"
  shows "searchRe m y"
proof -
  from found obtain t p where x: "x = p @ t" and mt: "m t"
    unfolding searchRe_iff suffix_def by blast
  from sub obtain a c where y: "y = a @ x @ c"
    unfolding sublist_def by blast
  have "suffix (t @ c) y" unfolding y x suffix_def by simp
  moreover have "m (t @ c)" using mt by (rule ext)
  ultimately show ?thesis unfolding searchRe_iff by blast
qed

lemma matchLit_append: "matchLit p t = Some r \<Longrightarrow> matchLit p (t @ e) = Some (r @ e)"
  by (induction p t rule: matchLit.induct) (simp_all split: if_splits)

lemma matchLit_append_neq: "matchLit p t \<noteq> None \<Longrightarrow> matchLit p (t @ e) \<noteq> None"
  using matchLit_append [of p t _ e] by auto

lemma testLit_sublist: "sublist x y \<Longrightarrow> testLit pat x \<Longrightarrow> testLit pat y"
  unfolding testLit_def
  by (rule searchRe_sublist [where m = "\<lambda>t. matchLit (js pat) t \<noteq> None"])
     (simp_all add: matchLit_append_neq)

lemma matchSelf_append: "matchSelf word t \<Longrightarrow> matchSelf word (t @ e)"
proof -
  assume m: "matchSelf word t"
  then obtain r where r: "matchLit (js ''self'') t = Some r"
    unfolding matchSelf_def by (cases "matchLit (js ''self'') t") auto
  then have re: "matchLit (js ''self'') (t @ e) = Some (r @ e)"
    by (rule matchLit_append)
  from m r have "(\<exists>c cs. r = c # cs \<and> (c = 45 \<or> isSpace c) \<and> matchLit (js word) cs \<noteq> None)
      \<or> matchLit (js word) r \<noteq> None"
    unfolding matchSelf_def by (cases r) auto
  then show ?thesis
  proof
    assume "\<exists>c cs. r = c # cs \<and> (c = 45 \<or> isSpace c) \<and> matchLit (js word) cs \<noteq> None"
    then obtain c cs where "r = c # cs" "c = 45 \<or> isSpace c" "matchLit (js word) cs \<noteq> None"
      by blast
    then show ?thesis
      unfolding matchSelf_def re using matchLit_append_neq [of "js word" cs e] by simp
  next
    assume "matchLit (js word) r \<noteq> None"
    then have "matchLit (js word) (r @ e) \<noteq> None" by (rule matchLit_append_neq)
    then show ?thesis unfolding matchSelf_def re by simp
  qed
qed

lemma headerRule_cases:
  "headerRule Intro line = False"
  "headerRule Conditions line = testLit ''likely conditions'' line"
  "headerRule RedFlags line = testLit ''red flags'' line"
  "headerRule SelfCare line
     = (searchRe (matchSelf ''care'') line \<or> searchRe (matchSelf ''monitor'') line)"
  "headerRule Specialist line
     = (testLit ''specialist'' line \<or> testLit ''doctor'' line \<or> testLit ''clinician'' line)"
  "headerRule Disclaimer line = testLit ''disclaimer'' line"
  by (simp_all add: headerRule_def checks_def)

lemma headerRule_sublist: "sublist x y \<Longrightarrow> headerRule k x \<Longrightarrow> headerRule k y"
proof (cases k)
  case SelfCare
  assume "sublist x y" "headerRule k x"
  then show ?thesis
    unfolding SelfCare headerRule_cases
    using searchRe_sublist [where m = "matchSelf ''care''", OF matchSelf_append]
      searchRe_sublist [where m = "matchSelf ''monitor''", OF matchSelf_append]
    by blast
qed (auto simp: headerRule_cases intro: testLit_sublist)

lemma resolveSection_headerRule: "resolveSection t = Some k \<Longrightarrow> headerRule k t"
  by (cases k) (auto simp: resolveSection_def checks_def headerRule_cases split: if_splits)

lemma resolveSection_None: "(\<forall>k. \<not> headerRule k t) \<Longrightarrow> resolveSection t = None"
  using resolveSection_headerRule [of t] by (cases "resolveSection t") auto

lemma contentLines_no_header:
  "k \<noteq> sec \<Longrightarrow> \<forall>l\<in>set ls. resolveSection (trim_js l) \<noteq> Some k
   \<Longrightarrow> contentLines k sec ls = []"
proof (induction ls arbitrary: sec)
  case Nil
  show ?case by simp
next
  case (Cons l ls)
  show ?case
  proof (cases "resolveSection (trim_js l)")
    case None
    with Cons show ?thesis by simp
  next
    case (Some new)
    with Cons.prems have "k \<noteq> new" by auto
    with Cons Some show ?thesis by simp
  qed
qed

lemma contentLines_no_headers:
  "\<forall>l\<in>set ls. resolveSection (trim_js l) = None
   \<Longrightarrow> contentLines k k ls = filter (\<lambda>t. t \<noteq> []) (map trim_js ls)"
  by (induction ls) simp_all

lemma no_header_in_lines:
  assumes "\<forall>l\<in>set ls. \<not> headerRule k l"
  shows "\<forall>l\<in>set ls. resolveSection (trim_js l) \<noteq> Some k"
proof
  fix l assume l: "l \<in> set ls"
  show "resolveSection (trim_js l) \<noteq> Some k"
  proof
    assume "resolveSection (trim_js l) = Some k"
    then have "headerRule k (trim_js l)" by (rule resolveSection_headerRule)
    with sublist_trim_js [of l] have "headerRule k l" by (rule headerRule_sublist)
    with assms l show False by blast
  qed
qed

lemma prediction_of_text:
  "text \<noteq> [] \<Longrightarrow>
   introParagraphs (buildStructuredResult (Some text))
     = map cleanBullet (contentLines Intro Intro (splitLines text))
   \<and> conditions (buildStructuredResult (Some text))
     = concat (map (\<lambda>t. if startsWithBullet t
          then (case parseCondition t of Some parsed \<Rightarrow> [parsed] | None \<Rightarrow> []) else [])
        (contentLines Conditions Intro (splitLines text)))
   \<and> redFlags (buildStructuredResult (Some text))
     = map cleanBullet (contentLines RedFlags Intro (splitLines text))
   \<and> selfCare (buildStructuredResult (Some text))
     = map cleanBullet (contentLines SelfCare Intro (splitLines text))
   \<and> specialist (buildStructuredResult (Some text))
     = map cleanBullet (contentLines Specialist Intro (splitLines text))
   \<and> disclaimer (buildStructuredResult (Some text))
     = trim_js (concat (map (\<lambda>t. cleanBullet t @ [32])
         (contentLines Disclaimer Intro (splitLines text))))"
  by (simp add: buildStructuredResult_def Let_def base_def introParagraphs_loop
      conditions_loop redFlags_loop selfCare_loop specialist_loop disclaimer_loop)

lemma prediction_of_empty:
  "buildStructuredResult (Some []) = base"
  by (simp add: buildStructuredResult_def)

text \<open>
  Claim C7. In prediction mode, when no line of the input matches the header rule of a
  section, the list of that section (the string, for the disclaimer) is empty in the
  result. When no line matches any header rule, the intro paragraphs are the normalized
  non-blank lines, in order; for "Take rest and drink water." they are that sentence
  alone and everything else is empty.
\<close>

theorem section_without_header_is_empty:
  "((\<forall>l\<in>set (splitLines text). \<not> headerRule Conditions l)
      \<longrightarrow> conditions (buildStructuredResult (Some text)) = [])
   \<and> ((\<forall>l\<in>set (splitLines text). \<not> headerRule RedFlags l)
      \<longrightarrow> redFlags (buildStructuredResult (Some text)) = [])
   \<and> ((\<forall>l\<in>set (splitLines text). \<not> headerRule SelfCare l)
      \<longrightarrow> selfCare (buildStructuredResult (Some text)) = [])
   \<and> ((\<forall>l\<in>set (splitLines text). \<not> headerRule Specialist l)
      \<longrightarrow> specialist (buildStructuredResult (Some text)) = [])
   \<and> ((\<forall>l\<in>set (splitLines text). \<not> headerRule Disclaimer l)
      \<longrightarrow> disclaimer (buildStructuredResult (Some text)) = [])
   \<and> ((\<forall>l\<in>set (splitLines text). \<forall>k. \<not> headerRule k l)
      \<longrightarrow> introParagraphs (buildStructuredResult (Some text))
            = map cleanBullet (filter (\<lambda>t. t \<noteq> []) (map trim_js (splitLines text))))
   \<and> buildStructuredResult (Some (js ''Take rest and drink water.''))
       = \<lparr>introParagraphs = [js ''Take rest and drink water.''], conditions = [],
          redFlags = [], selfCare = [], specialist = [], disclaimer = []\<rparr>"
proof (cases "text = []")
  case True
  have "filter (\<lambda>t. t \<noteq> []) (map trim_js (splitLines [])) = []"
    by (simp add: trim_js_Nil)
  moreover have "buildStructuredResult (Some (js ''Take rest and drink water.''))
       = \<lparr>introParagraphs = [js ''Take rest and drink water.''], conditions = [],
          redFlags = [], selfCare = [], specialist = [], disclaimer = []\<rparr>"
    by (simp add: parser_defs)
  ultimately show ?thesis
    unfolding True prediction_of_empty by (simp add: base_def)
next
  case False
  note of_text = prediction_of_text [OF False]
  have empty: "contentLines k Intro (splitLines text) = []"
    if "\<forall>l\<in>set (splitLines text). \<not> headerRule k l" "k \<noteq> Intro" for k
    using contentLines_no_header [OF that(2) no_header_in_lines [OF that(1)]] .
  have c1: "(\<forall>l\<in>set (splitLines text). \<not> headerRule Conditions l)
      \<longrightarrow> conditions (buildStructuredResult (Some text)) = []"
    using of_text empty [of Conditions] by simp
  have c2: "(\<forall>l\<in>set (splitLines text). \<not> headerRule RedFlags l)
      \<longrightarrow> redFlags (buildStructuredResult (Some text)) = []"
    using of_text empty [of RedFlags] by simp
  have c3: "(\<forall>l\<in>set (splitLines text). \<not> headerRule SelfCare l)
      \<longrightarrow> selfCare (buildStructuredResult (Some text)) = []"
    using of_text empty [of SelfCare] by simp
  have c4: "(\<forall>l\<in>set (splitLines text). \<not> headerRule Specialist l)
      \<longrightarrow> specialist (buildStructuredResult (Some text)) = []"
    using of_text empty [of Specialist] by simp
  have c5: "(\<forall>l\<in>set (splitLines text). \<not> headerRule Disclaimer l)
      \<longrightarrow> disclaimer (buildStructuredResult (Some text)) = []"
    using of_text empty [of Disclaimer] by (simp add: trim_js_Nil)
  have c6: "(\<forall>l\<in>set (splitLines text). \<forall>k. \<not> headerRule k l)
      \<longrightarrow> introParagraphs (buildStructuredResult (Some text))
            = map cleanBullet (filter (\<lambda>t. t \<noteq> []) (map trim_js (splitLines text)))"
  proof
    assume none: "\<forall>l\<in>set (splitLines text). \<forall>k. \<not> headerRule k l"
    have "\<forall>l\<in>set (splitLines text). resolveSection (trim_js l) = None"
    proof
      fix l assume l: "l \<in> set (splitLines text)"
      show "resolveSection (trim_js l) = None"
      proof (cases "resolveSection (trim_js l)")
        case None
        then show ?thesis .
      next
        case (Some k)
        from none have "\<forall>l\<in>set (splitLines text). \<not> headerRule k l" by blast
        from no_header_in_lines [OF this] l Some show ?thesis by blast
      qed
    qed
    then have "contentLines Intro Intro (splitLines text)
                 = filter (\<lambda>t. t \<noteq> []) (map trim_js (splitLines text))"
      by (rule contentLines_no_headers)
    with of_text show "introParagraphs (buildStructuredResult (Some text))
            = map cleanBullet (filter (\<lambda>t. t \<noteq> []) (map trim_js (splitLines text)))"
      by simp
  qed
  have c7: "buildStructuredResult (Some (js ''Take rest and drink water.''))
       = \<lparr>introParagraphs = [js ''Take rest and drink water.''], conditions = [],
          redFlags = [], selfCare = [], specialist = [], disclaimer = []\<rparr>"
    by (simp add: parser_defs)
  from c1 c2 c3 c4 c5 c6 c7 show ?thesis by (intro conjI)
qed

theorem section_without_header_witness:
  "conditions (buildStructuredResult (Some (js ''Red flags:'' @ [10] @ js ''- chest pain''))) = []
   \<and> selfCare (buildStructuredResult (Some (js ''Red flags:'' @ [10] @ js ''- chest pain''))) = []
   \<and> specialist (buildStructuredResult (Some (js ''Red flags:'' @ [10] @ js ''- chest pain''))) = []
   \<and> disclaimer (buildStructuredResult (Some (js ''Red flags:'' @ [10] @ js ''- chest pain''))) = []
   \<and> redFlags (buildStructuredResult (Some (js ''Red flags:'' @ [10] @ js ''- chest pain'')))
       = [js ''chest pain'']
   \<and> introParagraphs (buildStructuredResult (Some (js ''Take rest and drink water.'')))
       = map cleanBullet (filter (\<lambda>t. t \<noteq> [])
           (map trim_js (splitLines (js ''Take rest and drink water.''))))"
proof -
  have h1: "\<forall>l\<in>set (splitLines (js ''Red flags:'' @ [10] @ js ''- chest pain'')).
      \<not> headerRule Conditions l \<and> \<not> headerRule SelfCare l \<and> \<not> headerRule Specialist l
      \<and> \<not> headerRule Disclaimer l"
    by (simp add: parser_defs)
  have h2: "\<forall>l\<in>set (splitLines (js ''Take rest and drink water.'')). \<forall>k. \<not> headerRule k l"
  proof (intro ballI allI)
    fix l k assume "l \<in> set (splitLines (js ''Take rest and drink water.''))"
    then have l: "l = js ''Take rest and drink water.''" by (simp add: js_def)
    show "\<not> headerRule k l" unfolding l by (cases k) (simp_all add: parser_defs)
  qed
  have h3: "redFlags (buildStructuredResult (Some (js ''Red flags:'' @ [10] @ js ''- chest pain'')))
       = [js ''chest pain'']"
    by (simp add: parser_defs)
  show ?thesis
    using h1 h2 h3
      section_without_header_is_empty [of "js ''Red flags:'' @ [10] @ js ''- chest pain''"]
      section_without_header_is_empty [of "js ''Take rest and drink water.''"]
    by blast
qed

section \<open>The confidence mapping\<close>

lemma includes_js_sublist: "includes_js w s \<longleftrightarrow> sublist w s"
  unfolding includes_js_def
  by (induction s) (simp_all add: sublist_Cons_right)

lemma sublist_map_iff: "sublist w (map f s) \<longleftrightarrow> (\<exists>t. sublist t s \<and> map f t = w)"
proof
  assume "sublist w (map f s)"
  then obtain ps ss where "map f s = ps @ w @ ss" unfolding sublist_def by blast
  then have "map f (take (length w) (drop (length ps) s)) = w"
    by (simp only: take_map [symmetric] drop_map [symmetric]) simp
  moreover have "sublist (take (length w) (drop (length ps) s)) s"
    using sublist_take [of "length w" "drop (length ps) s"] sublist_drop [of "length ps" s]
    by (rule sublist_order.order.trans)
  ultimately have "sublist (take (length w) (drop (length ps) s)) s
      \<and> map f (take (length w) (drop (length ps) s)) = w" by simp
  then show "\<exists>t. sublist t s \<and> map f t = w" by blast
next
  assume "\<exists>t. sublist t s \<and> map f t = w"
  then obtain t a c where "s = a @ t @ c" "map f t = w" unfolding sublist_def by blast
  then have "map f s = map f a @ w @ map f c" by simp
  then show "sublist w (map f s)" unfolding sublist_def by blast
qed

lemma plainWord_tl: "plainWord (a # w) \<Longrightarrow> plainWord w"
  by (auto simp: plainWord_def)

lemma prefix_toLowerCase:
  "plainWord w \<Longrightarrow> prefix w (toLowerCase s) \<longleftrightarrow> prefix w (map asciiLower s)"
proof (induction s arbitrary: w)
  case Nil
  show ?case by (simp add: toLowerCase_def)
next
  case (Cons c cs)
  show ?case
  proof (cases w)
    case Nil
    then show ?thesis by simp
  next
    case (Cons a w')
    have a: "97 \<le> a" "a \<le> 122" "a \<noteq> 107" and w': "plainWord w'"
      and last: "w' = [] \<Longrightarrow> a \<noteq> 105"
      using Cons.prems unfolding Cons plainWord_def by auto
    have IH: "prefix w' (toLowerCase cs) \<longleftrightarrow> prefix w' (map asciiLower cs)"
      using Cons.IH [OF w'] .
    have hd775: "\<not> prefix w' (775 # xs)" if "w' \<noteq> []" for xs
    proof -
      from that obtain b w'' where "w' = b # w''" by (cases w') auto
      moreover from this w' have "b \<le> 122" unfolding plainWord_def by auto
      ultimately show ?thesis by auto
    qed
    show ?thesis
    proof (cases "c = 304")
      case True
      have "toLowerCase (c # cs) = 105 # 775 # toLowerCase cs"
        using True by (simp add: toLowerCase_def lowerUnit_def)
      moreover have "map asciiLower (c # cs) = 304 # map asciiLower cs"
        using True by (simp add: asciiLower_def)
      ultimately show ?thesis
        unfolding Cons using a last hd775 by (cases "w' = []") auto
    next
      case False
      have "toLowerCase (c # cs) = hd (lowerUnit c) # toLowerCase cs"
        using False by (simp add: toLowerCase_def lowerUnit_def)
      moreover have "a = hd (lowerUnit c) \<longleftrightarrow> a = asciiLower c"
        using a False by (auto simp: lowerUnit_def asciiLower_def)
      ultimately show ?thesis
        unfolding Cons using IH by auto
    qed
  qed
qed

lemma includes_toLowerCase:
  assumes w: "plainWord w" and ne: "w \<noteq> []"
  shows "includes_js w (toLowerCase s) \<longleftrightarrow> includes_js w (map asciiLower s)"
proof (induction s)
  case Nil
  show ?case by (simp add: toLowerCase_def)
next
  case (Cons c cs)
  have step: "includes_js w (toLowerCase (c # cs))
                \<longleftrightarrow> prefix w (toLowerCase (c # cs)) \<or> includes_js w (toLowerCase cs)"
  proof (cases "c = 304")
    case True
    from ne obtain b w' where bw: "w = b # w'" by (cases w) auto
    with w have "b \<le> 122" unfolding plainWord_def by auto
    then have "\<not> prefix w (775 # toLowerCase cs)" unfolding bw by auto
    moreover have "toLowerCase (c # cs) = 105 # 775 # toLowerCase cs"
      using True by (simp add: toLowerCase_def lowerUnit_def)
    ultimately show ?thesis by (simp add: includes_js_def)
  next
    case False
    have "toLowerCase (c # cs) = hd (lowerUnit c) # toLowerCase cs"
      using False by (simp add: toLowerCase_def lowerUnit_def)
    then show ?thesis by (simp add: includes_js_def)
  qed
  show ?case
    unfolding step prefix_toLowerCase [OF w] using Cons.IH
    by (simp add: includes_js_def)
qed

lemma includes_containsCI:
  "plainWord (js word) \<Longrightarrow> js word \<noteq> []
   \<Longrightarrow> includes_js (js word) (toLowerCase label) \<longleftrightarrow> containsCI word label"
proof -
  assume w: "plainWord (js word)" "js word \<noteq> []"
  have "includes_js (js word) (toLowerCase label)
          \<longleftrightarrow> includes_js (js word) (map asciiLower label)"
    using w by (rule includes_toLowerCase)
  also have "\<dots> \<longleftrightarrow> sublist (js word) (map asciiLower label)"
    by (rule includes_js_sublist)
  also have "\<dots> \<longleftrightarrow> containsCI word label"
    unfolding containsCI_def by (rule sublist_map_iff)
  finally show ?thesis .
qed

text \<open>
  Claim C6. The score is a total function of the label, decided by case-insensitive
  containment in this order: "high" gives 75; else "medium" or "med" gives 55; else
  "low" gives 35; every other label, the empty one included, gives 60.
\<close>

theorem mapConfidence_by_containment:
  "mapConfidence label =
     (if containsCI ''high'' label then 75
      else if containsCI ''medium'' label \<or> containsCI ''med'' label then 55
      else if containsCI ''low'' label then 35
      else 60)
   \<and> mapConfidence (before @ js ''HiGh'' @ after) = 75
   \<and> mapConfidence [] = 60"
proof -
  have high: "includes_js (js ''high'') (toLowerCase l) \<longleftrightarrow> containsCI ''high'' l" for l
    by (rule includes_containsCI) (simp_all add: plainWord_def js_def)
  have medium: "includes_js (js ''medium'') (toLowerCase l) \<longleftrightarrow> containsCI ''medium'' l" for l
    by (rule includes_containsCI) (simp_all add: plainWord_def js_def)
  have med: "includes_js (js ''med'') (toLowerCase l) \<longleftrightarrow> containsCI ''med'' l" for l
    by (rule includes_containsCI) (simp_all add: plainWord_def js_def)
  have low: "includes_js (js ''low'') (toLowerCase l) \<longleftrightarrow> containsCI ''low'' l" for l
    by (rule includes_containsCI) (simp_all add: plainWord_def js_def)
  have general: "mapConfidence l =
     (if containsCI ''high'' l then 75
      else if containsCI ''medium'' l \<or> containsCI ''med'' l then 55
      else if containsCI ''low'' l then 35
      else 60)" for l
    unfolding mapConfidence_def Let_def high medium med low by (rule refl)
  have "sublist (js ''HiGh'') (before @ js ''HiGh'' @ after)"
    by (rule sublist_appendI)
  moreover have "map asciiLower (js ''HiGh'') = js ''high''"
    by (simp add: js_def asciiLower_def)
  ultimately have "containsCI ''high'' (before @ js ''HiGh'' @ after)"
    unfolding containsCI_def by blast
  then have surrounded: "mapConfidence (before @ js ''HiGh'' @ after) = 75"
    by (simp add: general)
  have "mapConfidence [] = 60"
    by (simp add: parser_defs)
  with general [of label] surrounded show ?thesis by (intro conjI)
qed

section \<open>Normalizers\<close>
















end
